theory Spec2Isabelle
  imports Complex_Main
begin

section \<open>Host-language operations used by the number formatters\<close>

text \<open>
  The formatters \<open>ordinal\<close> and \<open>wordinal\<close> of the numbers module work on
  JavaScript numbers that hold integers.  Such a number is modelled as an \<open>int\<close>:
  the remainder is exact on every double, and addition, subtraction, multiplication by a
  power of ten and \<open>Math.floor\<close> of a quotient are exact on the integers up to
  \<open>Number.MAX_SAFE_INTEGER\<close>, the only ones that pass the check of \<open>wordinal\<close>.
  Two operations of the host are not exact everywhere.  The text of a number is its plain
  decimal text on the safe integers only (\<open>number_text\<close> below).  \<open>Math.log10\<close> is
  rounded; \<open>wordinal\<close> is modelled with its exact value, and the rounded value is looked
  at in the sections on the table reads and on the magnitude.
\<close>

definition MAX_SAFE_INTEGER :: int where
  "MAX_SAFE_INTEGER = 9007199254740991"

text \<open>The remainder operator \<open>%\<close> truncates: its result has the sign of the dividend.\<close>

definition js_rem :: "int \<Rightarrow> int \<Rightarrow> int" where
  "js_rem a b = sgn a * (\<bar>a\<bar> mod \<bar>b\<bar>)"

text \<open>
  Reading an array at an index that is not one of its positions gives \<open>undefined\<close>
  (\<open>None\<close>); nothing is raised.
\<close>

definition js_at :: "'a list \<Rightarrow> int \<Rightarrow> 'a option" where
  "js_at xs i = (if 0 \<le> i \<and> i < int (length xs) then Some (xs ! nat i) else None)"

text \<open>The operator \<open>??\<close> takes its right operand when the left one is \<open>undefined\<close>.\<close>

definition nullish :: "'a option \<Rightarrow> 'a option \<Rightarrow> 'a option" where
  "nullish a b = (case a of None \<Rightarrow> b | Some v \<Rightarrow> Some v)"

text \<open>
  A value placed in a template literal, or added to a string, is converted to a string;
  \<open>undefined\<close> becomes the text \<open>undefined\<close>.
\<close>

definition tmpl :: "string option \<Rightarrow> string" where
  "tmpl v = (case v of None \<Rightarrow> ''undefined'' | Some s \<Rightarrow> s)"

text \<open>The decimal text of an integer, as the conversion of a number to a string gives it.\<close>

definition digit_char :: "nat \<Rightarrow> char" where
  "digit_char d = char_of (48 + d)"

function show_nat :: "nat \<Rightarrow> string" where
  "show_nat n = (if n < 10 then [digit_char n] else show_nat (n div 10) @ [digit_char (n mod 10)])"
  by pat_completeness auto
termination
  by (relation "measure (\<lambda>n. n)") auto

declare show_nat.simps [simp del]

definition show_int :: "int \<Rightarrow> string" where
  "show_int n = (if n < 0 then CHR ''-'' # show_nat (nat (- n)) else show_nat (nat n))"

text \<open>The number that a string of decimal digits denotes, to state what \<open>show_nat\<close> returns.\<close>

definition decimal_value :: "string \<Rightarrow> nat" where
  "decimal_value s = foldl (\<lambda>a c. 10 * a + (of_char c - 48)) 0 s"

text \<open>
  The text that the host gives a number when it is added to a string.  For an integer
  from \<open>-MAX_SAFE_INTEGER\<close> to \<open>MAX_SAFE_INTEGER\<close> it is the decimal text.  Beyond that
  range the host prints the shortest digits that identify the double, filled up with zeros
  (18446744073709552000 for \<open>2 ^ 64\<close>), and exponent notation from \<open>10 ^ 21\<close> on
  (1e+21); that text is left to the function \<open>big\<close>.
\<close>

definition number_text :: "(int \<Rightarrow> string) \<Rightarrow> int \<Rightarrow> string" where
  "number_text big n =
     (if - MAX_SAFE_INTEGER \<le> n \<and> n \<le> MAX_SAFE_INTEGER then show_int n else big n)"

text \<open>
  \<open>Math.floor(Math.log10(n))\<close>, the position of the leading decimal digit of \<open>n\<close>,
  as its exact value on the integers \<open>n \<ge> 1\<close>.  (For \<open>n = 0\<close> the program
  computes \<open>-Infinity\<close> and never uses it: \<open>wordinal\<close> returns the table entry for
  every \<open>n < 20\<close> first.)
\<close>

function floor_log10 :: "int \<Rightarrow> int" where
  "floor_log10 n = (if n < 10 then 0 else floor_log10 (n div 10) + 1)"
  by pat_completeness auto
termination
  by (relation "measure (\<lambda>n. nat n)") auto

declare floor_log10.simps [simp del]

section \<open>The tables\<close>

definition suffixes :: "string list" where
  "suffixes = [''th'', ''st'', ''nd'', ''rd'']"

definition nums :: "string list" where
  "nums = [''zero'', ''one'', ''two'', ''three'', ''four'', ''five'', ''six'', ''seven'',
     ''eight'', ''nine'', ''ten'', ''eleven'', ''twelve'', ''thirteen'', ''fourteen'',
     ''fifteen'', ''sixteen'', ''seventeen'', ''eighteen'', ''nineteen'']"

definition ones :: "string list" where
  "ones = [''zeroth'', ''first'', ''second'', ''third'', ''fourth'', ''fifth'', ''sixth'',
     ''seventh'', ''eighth'', ''ninth'', ''tenth'', ''eleventh'', ''twelfth'',
     ''thirteenth'', ''fourteenth'', ''fifteenth'', ''sixteenth'', ''seventeenth'',
     ''eighteenth'', ''nineteenth'']"

definition tens :: "string list" where
  "tens = [''twent'', ''thirt'', ''fort'', ''fift'', ''sixt'', ''sevent'', ''eight'', ''ninet'']"

definition groups :: "string list" where
  "groups = [''hundred'', ''thousand'', ''million'', ''billion'', ''trillion'', ''quadrillion'']"

section \<open>ordinal\<close>

text \<open>
  \<open>ordinal\<close> validates nothing: it takes every number, and its result starts with the
  text of that number, whatever the host makes it.
\<close>

definition ordinal :: "(int \<Rightarrow> string) \<Rightarrow> int \<Rightarrow> string" where
  "ordinal big n =
     (let v = js_rem n 100
      in number_text big n @
         tmpl (nullish (js_at suffixes (js_rem (v - 20) 10))
                 (nullish (js_at suffixes v) (js_at suffixes 0))))"


section \<open>wordinal\<close>

datatype error = OutOfRange

text \<open>The inner function \<open>mult\<close>, which renders the leading group.\<close>

function mult :: "int \<Rightarrow> string" where
  "mult num =
     (if num < 20 then tmpl (js_at nums num)
      else
        let rem = js_rem num 10 in
        if num < 100 then
          tmpl (js_at tens (num div 10 - 2)) @ ''y'' @
            (if rem = 0 then '''' else ''-'' @ tmpl (js_at nums rem))
        else
          let x = num - (num div 100) * 100 in
          tmpl (js_at nums (num div 100)) @ '' '' @ tmpl (js_at groups 0) @
            (if x = 0 then ''th'' else '' '' @ mult x))"
  by pat_completeness auto
termination
  by (relation "measure (\<lambda>num. nat num)") auto

declare mult.simps [simp del]

text \<open>The locals \<open>g\<close>, \<open>i\<close>, \<open>f\<close> and \<open>x\<close> of the general case, from \<open>n\<close> and \<open>mag\<close>.\<close>

definition wordinal_g :: "int \<Rightarrow> int" where
  "wordinal_g mag = js_rem mag 3 + 1"

definition wordinal_i :: "int \<Rightarrow> int" where
  "wordinal_i mag = mag div 3"

definition wordinal_f :: "int \<Rightarrow> int \<Rightarrow> int" where
  "wordinal_f n mag = n div 10 ^ nat (mag - wordinal_g mag + 1)"

definition wordinal_x :: "int \<Rightarrow> int \<Rightarrow> int" where
  "wordinal_x n mag = n - wordinal_f n mag * 10 ^ nat (mag - wordinal_g mag + 1)"

lemma js_rem_nonneg: "0 \<le> a \<Longrightarrow> 0 < b \<Longrightarrow> js_rem a b = a mod b"
  by (cases "a = 0") (simp_all add: js_rem_def)

lemma floor_log10_nonneg: "0 \<le> floor_log10 n"
  by (induction n rule: floor_log10.induct) (subst floor_log10.simps, simp)

lemma floor_log10_lower: "1 \<le> n \<Longrightarrow> 10 ^ nat (floor_log10 n) \<le> n"
proof (induction n rule: floor_log10.induct)
  case (1 n)
  show ?case
  proof (cases "n < 10")
    case True
    with "1.prems" show ?thesis by (subst floor_log10.simps) simp
  next
    case False
    then have "1 \<le> n div 10" by simp
    with "1.IH" False have ih: "10 ^ nat (floor_log10 (n div 10)) \<le> n div 10" by simp
    have "nat (floor_log10 (n div 10) + 1) = Suc (nat (floor_log10 (n div 10)))"
      using floor_log10_nonneg [of "n div 10"] by simp
    then have "(10::int) ^ nat (floor_log10 (n div 10) + 1) = 10 * 10 ^ nat (floor_log10 (n div 10))"
      by simp
    also have "\<dots> \<le> 10 * (n div 10)" using ih by simp
    also have "\<dots> \<le> n" by simp
    finally show ?thesis using False by (subst floor_log10.simps) simp
  qed
qed

lemma floor_log10_upper: "1 \<le> n \<Longrightarrow> n < 10 ^ (nat (floor_log10 n) + 1)"
proof (induction n rule: floor_log10.induct)
  case (1 n)
  show ?case
  proof (cases "n < 10")
    case True
    then show ?thesis by (subst floor_log10.simps) simp
  next
    case False
    then have "1 \<le> n div 10" by simp
    with "1.IH" False have ih: "n div 10 < 10 ^ (nat (floor_log10 (n div 10)) + 1)" by simp
    have e: "nat (floor_log10 (n div 10) + 1) = Suc (nat (floor_log10 (n div 10)))"
      using floor_log10_nonneg [of "n div 10"] by simp
    from ih have "n div 10 + 1 \<le> 10 ^ (nat (floor_log10 (n div 10)) + 1)" by simp
    then have "10 * (n div 10 + 1) \<le> 10 * 10 ^ (nat (floor_log10 (n div 10)) + 1)" by simp
    moreover have "n < 10 * (n div 10 + 1)" by simp
    ultimately have "n < 10 * 10 ^ (nat (floor_log10 (n div 10)) + 1)" by linarith
    then show ?thesis using False e by (subst floor_log10.simps) simp
  qed
qed

text \<open>
  The argument of each recursive call of \<open>wordinal\<close>: what is left of \<open>n\<close> without
  its hundreds in the hundreds case, and the local \<open>x\<close> in the general case.  With the
  exact magnitude both are smaller than \<open>n\<close> and not negative.
\<close>

lemma hundreds_rest_less:
  assumes "floor_log10 n = 2"
  shows "0 \<le> n - n div 10 ^ nat 2 * 10 ^ nat 2" and "n - n div 10 ^ nat 2 * 10 ^ nat 2 < n"
proof -
  have x: "n - n div 10 ^ nat 2 * 10 ^ nat 2 = n mod 100"
    by (simp add: minus_div_mult_eq_mod)
  have "\<not> n < 10"
    using assms by (subst (asm) floor_log10.simps) (simp split: if_splits)
  then have "100 \<le> n"
    using floor_log10_lower [of n] assms by simp
  moreover have "n mod 100 < 100" "0 \<le> n mod 100"
    by simp_all
  ultimately show "0 \<le> n - n div 10 ^ nat 2 * 10 ^ nat 2"
    and "n - n div 10 ^ nat 2 * 10 ^ nat 2 < n"
    unfolding x by linarith+
qed

lemma wordinal_x_less:
  assumes "1 \<le> n"
  shows "0 \<le> wordinal_x n (floor_log10 n)" and "wordinal_x n (floor_log10 n) < n"
proof -
  define mag where "mag = floor_log10 n"
  define e where "e = nat (mag - wordinal_g mag + 1)"
  have x: "wordinal_x n mag = n mod 10 ^ e"
    by (simp add: wordinal_x_def wordinal_f_def e_def minus_div_mult_eq_mod)
  have "e \<le> nat mag"
    using floor_log10_nonneg [of n] by (simp add: e_def mag_def wordinal_g_def js_rem_nonneg)
  then have "(10::int) ^ e \<le> 10 ^ nat mag"
    by (simp add: power_increasing)
  moreover have "10 ^ nat mag \<le> n"
    using floor_log10_lower [OF assms] by (simp add: mag_def)
  ultimately have "10 ^ e \<le> n"
    by linarith
  moreover have "n mod 10 ^ e < 10 ^ e" "0 \<le> n mod 10 ^ e"
    by simp_all
  ultimately show "0 \<le> wordinal_x n (floor_log10 n)" and "wordinal_x n (floor_log10 n) < n"
    unfolding mag_def [symmetric] x by linarith+
qed

text \<open>
  \<open>wordinal\<close> throws for an argument outside \<open>0 .. Number.MAX_SAFE_INTEGER\<close> and
  otherwise returns the words; a throw inside the recursive call leaves through the
  caller.  In the first branch the argument is an integer from 0 to 19, so the entry
  read from \<open>ones\<close> is a string.
\<close>

function wordinal :: "int \<Rightarrow> error + string" where
  "wordinal n =
     (if n < 0 \<or> n > MAX_SAFE_INTEGER then Inl OutOfRange
      else
        let mag = floor_log10 n in
        if n < 20 then Inr (tmpl (js_at ones n))
        else if mag = 1 then
          (let i = n div 10 - 2 in
           if js_rem n 10 = 0 then Inr (tmpl (js_at tens i) @ ''ieth'')
           else Inr (tmpl (js_at tens i) @ ''y-'' @ tmpl (js_at ones (js_rem n 10))))
        else if mag = 2 then
          (let f = n div 10 ^ nat mag;
               x = n - f * 10 ^ nat mag in
           if x = 0 then Inr (tmpl (js_at nums f) @ '' '' @ tmpl (js_at groups 0) @ ''th'')
           else
             (case wordinal x of
                Inl e \<Rightarrow> Inl e
              | Inr w \<Rightarrow> Inr (tmpl (js_at nums f) @ '' '' @ tmpl (js_at groups 0) @ '' '' @ w)))
        else
          (let i = wordinal_i mag;
               m = mult (wordinal_f n mag);
               x = wordinal_x n mag in
           if x = 0 then Inr (m @ '' '' @ tmpl (js_at groups i) @ ''th'')
           else
             (case wordinal x of
                Inl e \<Rightarrow> Inl e
              | Inr w \<Rightarrow> Inr (m @ '' '' @ tmpl (js_at groups i) @ '' '' @ w))))"
  by pat_completeness auto
termination
proof (relation "measure (\<lambda>n. nat n)")
  show "wf (measure (\<lambda>n. nat n))" by simp
next
  fix n mag f x
  assume "\<not> (n < 0 \<or> n > MAX_SAFE_INTEGER)" "\<not> n < 20" "mag = floor_log10 n" "mag = 2"
    "f = n div 10 ^ nat mag" "x = n - f * 10 ^ nat mag"
  then show "(x, n) \<in> measure (\<lambda>n. nat n)"
    using hundreds_rest_less [of n] by simp
next
  fix n mag i m x
  assume "\<not> (n < 0 \<or> n > MAX_SAFE_INTEGER)" "\<not> n < 20" "mag = floor_log10 n"
    "x = wordinal_x n mag"
  then show "(x, n) \<in> measure (\<lambda>n. nat n)"
    using wordinal_x_less [of n] by simp
qed

declare wordinal.simps [simp del]

subsection \<open>wordinal over a given magnitude function\<close>

text \<open>
  The same function with \<open>Math.floor(Math.log10(n))\<close> left to a function \<open>lg\<close>, and with
  a bound on the depth of the recursion: the result is \<open>None\<close> when the bound is reached
  before the evaluation has ended.  With \<open>floor_log10\<close> for \<open>lg\<close> this is \<open>wordinal\<close>
  (lemmas \<open>wordinal_with_exact\<close> and \<open>wordinal_with_returns\<close>).
\<close>

fun wordinal_with :: "(int \<Rightarrow> int) \<Rightarrow> nat \<Rightarrow> int \<Rightarrow> (error + string) option" where
  "wordinal_with lg 0 n = None"
| "wordinal_with lg (Suc depth) n =
     (if n < 0 \<or> n > MAX_SAFE_INTEGER then Some (Inl OutOfRange)
      else
        let mag = lg n in
        if n < 20 then Some (Inr (tmpl (js_at ones n)))
        else if mag = 1 then
          (let i = n div 10 - 2 in
           if js_rem n 10 = 0 then Some (Inr (tmpl (js_at tens i) @ ''ieth''))
           else Some (Inr (tmpl (js_at tens i) @ ''y-'' @ tmpl (js_at ones (js_rem n 10)))))
        else if mag = 2 then
          (let f = n div 10 ^ nat mag;
               x = n - f * 10 ^ nat mag in
           if x = 0
           then Some (Inr (tmpl (js_at nums f) @ '' '' @ tmpl (js_at groups 0) @ ''th''))
           else
             (case wordinal_with lg depth x of
                None \<Rightarrow> None
              | Some (Inl e) \<Rightarrow> Some (Inl e)
              | Some (Inr w) \<Rightarrow>
                  Some (Inr (tmpl (js_at nums f) @ '' '' @ tmpl (js_at groups 0) @ '' '' @ w))))
        else
          (let i = wordinal_i mag;
               m = mult (wordinal_f n mag);
               x = wordinal_x n mag in
           if x = 0 then Some (Inr (m @ '' '' @ tmpl (js_at groups i) @ ''th''))
           else
             (case wordinal_with lg depth x of
                None \<Rightarrow> None
              | Some (Inl e) \<Rightarrow> Some (Inl e)
              | Some (Inr w) \<Rightarrow> Some (Inr (m @ '' '' @ tmpl (js_at groups i) @ '' '' @ w)))))"

subsection \<open>The table reads of an evaluation\<close>

text \<open>
  The reads of the four tables that an evaluation performs, each as the table and the index,
  in the order of the program.  \<open>mult_reads\<close> follows the branches of \<open>mult\<close>.
\<close>

datatype table = Nums | Ones | Tens | Groups

function mult_reads :: "int \<Rightarrow> (table \<times> int) list" where
  "mult_reads num =
     (if num < 20 then [(Nums, num)]
      else
        let rem = js_rem num 10 in
        if num < 100 then
          (Tens, num div 10 - 2) # (if rem = 0 then [] else [(Nums, rem)])
        else
          let x = num - (num div 100) * 100 in
          (Nums, num div 100) # (Groups, 0) # (if x = 0 then [] else mult_reads x))"
  by pat_completeness auto
termination
  by (relation "measure (\<lambda>num. nat num)") auto

declare mult_reads.simps [simp del]

text \<open>
  The magnitude as the program computes it.  \<open>Math.log10\<close> returns a double next to the
  logarithm; for \<open>10 ^ 15 - 1\<close> and \<open>10 ^ 15 - 2\<close> the nearest double is 15 (lemmas
  \<open>log10_nearest_15\<close> and \<open>log10_nearest_15_second\<close>), so \<open>Math.floor\<close> gives 15 there
  and not 14.  For the other integers of the range it gives the exact value.
\<close>

definition rounded_log10 :: "int \<Rightarrow> int" where
  "rounded_log10 n =
     (if n = 999999999999999 \<or> n = 999999999999998 then 15 else floor_log10 n)"

text \<open>
  The reads of \<open>wordinal\<close>, over a magnitude function \<open>lg\<close> as in \<open>wordinal_with\<close>:
  the reads of the first \<open>depth\<close> calls of the evaluation, in the order of the program.
  An evaluation that ends has read nothing more than this list once \<open>depth\<close> is large
  enough (lemma \<open>reads_complete\<close>); one that does not end goes through these lists for
  every \<open>depth\<close>.  Nothing is read when \<open>wordinal\<close> throws.
\<close>

fun wordinal_reads_with :: "(int \<Rightarrow> int) \<Rightarrow> nat \<Rightarrow> int \<Rightarrow> (table \<times> int) list" where
  "wordinal_reads_with lg 0 n = []"
| "wordinal_reads_with lg (Suc depth) n =
     (if n < 0 \<or> n > MAX_SAFE_INTEGER then []
      else
        let mag = lg n in
        if n < 20 then [(Ones, n)]
        else if mag = 1 then
          (let i = n div 10 - 2 in
           if js_rem n 10 = 0 then [(Tens, i)]
           else [(Tens, i), (Ones, js_rem n 10)])
        else if mag = 2 then
          (let f = n div 10 ^ nat mag;
               x = n - f * 10 ^ nat mag in
           (Nums, f) # (Groups, 0) # (if x = 0 then [] else wordinal_reads_with lg depth x))
        else
          (let i = wordinal_i mag;
               x = wordinal_x n mag in
           mult_reads (wordinal_f n mag) @ (Groups, i) #
             (if x = 0 then [] else wordinal_reads_with lg depth x)))"

text \<open>The positions of each table: 0 to 19, 0 to 19, 0 to 7 and 0 to 5.\<close>

definition in_table :: "table \<times> int \<Rightarrow> bool" where
  "in_table rd =
     (case rd of
        (Nums, i) \<Rightarrow> 0 \<le> i \<and> i \<le> 19
      | (Ones, i) \<Rightarrow> 0 \<le> i \<and> i \<le> 19
      | (Tens, i) \<Rightarrow> 0 \<le> i \<and> i \<le> 7
      | (Groups, i) \<Rightarrow> 0 \<le> i \<and> i \<le> 5)"

subsection \<open>The cardinal phrase of the specification\<close>

text \<open>
  The cardinal rendering of a leading group in the words of the specification, for
  comparison with \<open>mult\<close>: below twenty the cardinal unit word; below one hundred the
  tens stem with y, then a hyphen and the unit word unless the number is a multiple of
  ten; from one hundred the unit word of the hundreds digit and hundred, then a space and
  the cardinal form of the remainder below one hundred unless that is zero.
\<close>

definition spec_cardinal_below_hundred :: "int \<Rightarrow> string" where
  "spec_cardinal_below_hundred f =
     (if f < 20 then nums ! nat f
      else tens ! nat (f div 10 - 2) @ ''y'' @
             (if f mod 10 = 0 then '''' else ''-'' @ nums ! nat (f mod 10)))"

definition spec_cardinal :: "int \<Rightarrow> string" where
  "spec_cardinal f =
     (if f < 100 then spec_cardinal_below_hundred f
      else nums ! nat (f div 100) @ '' hundred'' @
             (if f mod 100 = 0 then '''' else '' '' @ spec_cardinal_below_hundred (f mod 100)))"


section \<open>Facts about the host operations and the tables\<close>

lemma length_tables [simp]:
  "length suffixes = 4" "length nums = 20" "length ones = 20" "length tens = 8" "length groups = 6"
  by (simp_all add: suffixes_def nums_def ones_def tens_def groups_def)

lemma js_at_Some: "0 \<le> i \<Longrightarrow> i < int (length xs) \<Longrightarrow> js_at xs i = Some (xs ! nat i)"
  by (simp add: js_at_def)

lemma js_at_None: "i < 0 \<or> int (length xs) \<le> i \<Longrightarrow> js_at xs i = None"
  by (auto simp add: js_at_def)

text \<open>\<open>show_nat\<close> writes the decimal digits of its argument.\<close>

lemma digit_char_value: "d < 10 \<Longrightarrow> of_char (digit_char d) = 48 + d"
  by (simp add: digit_char_def)

lemma decimal_value_snoc: "decimal_value (s @ [c]) = 10 * decimal_value s + (of_char c - 48)"
  by (simp add: decimal_value_def)

lemma show_nat_decimal: "decimal_value (show_nat n) = n"
proof (induction n rule: show_nat.induct)
  case (1 n)
  show ?case
  proof (cases "n < 10")
    case True
    then show ?thesis
      by (subst show_nat.simps) (simp add: decimal_value_def digit_char_value)
  next
    case False
    with "1.IH" have "decimal_value (show_nat (n div 10)) = n div 10" by simp
    with False show ?thesis
      by (subst show_nat.simps) (simp add: decimal_value_snoc digit_char_value)
  qed
qed

lemma js_rem_nonpos: "a \<le> 0 \<Longrightarrow> js_rem a b \<le> 0"
  by (cases "b = 0") (simp_all add: js_rem_def sgn_if)

lemma floor_log10_unique:
  assumes "10 ^ m \<le> n" and "n < 10 ^ Suc m"
  shows "floor_log10 n = int m"
proof -
  define l where "l = nat (floor_log10 n)"
  have "(0::int) < 10 ^ m" by simp
  with assms have n: "1 \<le> n" by linarith
  have "(10::int) ^ l \<le> n" "n < 10 ^ (l + 1)"
    using floor_log10_lower [OF n] floor_log10_upper [OF n] by (simp_all add: l_def)
  with assms have "(10::int) ^ l < 10 ^ Suc m" "(10::int) ^ m < 10 ^ (l + 1)"
    by linarith+
  then have "l < Suc m" "m < l + 1"
    by (simp_all only: power_strict_increasing_iff [of "10::int"] one_less_numeral_iff semiring_norm)
  then have "l = m" by simp
  then show ?thesis
    using floor_log10_nonneg [of n] by (simp add: l_def)
qed

lemma floor_log10_tens: "10 \<le> n \<Longrightarrow> n \<le> 99 \<Longrightarrow> floor_log10 n = 1"
  using floor_log10_unique [of 1 n] by simp

lemma floor_log10_hundreds: "100 \<le> n \<Longrightarrow> n \<le> 999 \<Longrightarrow> floor_log10 n = 2"
  using floor_log10_unique [of 2 n] by simp

text \<open>
  \<open>floor_log10\<close> is the floor of the real logarithm to base ten.
\<close>

lemma floor_log10_real: "1 \<le> n \<Longrightarrow> floor_log10 n = \<lfloor>log 10 (real_of_int n)\<rfloor>"
proof -
  assume n: "1 \<le> n"
  define l where "l = nat (floor_log10 n)"
  have l: "floor_log10 n = int l" using floor_log10_nonneg [of n] by (simp add: l_def)
  have "(10::int) ^ l \<le> n" "n < 10 ^ (l + 1)"
    using floor_log10_lower [OF n] floor_log10_upper [OF n] by (simp_all add: l_def)
  then have "(10::real) ^ l \<le> real_of_int n" "real_of_int n < 10 ^ (l + 1)"
    by (metis of_int_le_iff of_int_numeral of_int_power, metis of_int_less_iff of_int_numeral of_int_power)
  then have "\<lfloor>log 10 (real_of_int n)\<rfloor> = int l"
    using n by (simp add: floor_log_eq_powr_iff powr_realpow powr_add) 
  with l show ?thesis by simp
qed

section \<open>ordinal: the suffix rule\<close>

text \<open>
  What the three chained reads of \<open>suffixes\<close> give, by the two indices: the first read
  decides when its index is 0 to 3, the second when its index is 1 to 3, and every other case
  ends at entry 0.
\<close>

lemma suffix_read:
  "tmpl (nullish (js_at suffixes k) (nullish (js_at suffixes v) (js_at suffixes 0))) =
     (if k = 0 then ''th'' else if k = 1 then ''st'' else if k = 2 then ''nd''
      else if k = 3 then ''rd''
      else if v = 1 then ''st'' else if v = 2 then ''nd'' else if v = 3 then ''rd'' else ''th'')"
proof -
  consider "k < 0 \<or> 4 \<le> k" | "k = 0" | "k = 1" | "k = 2" | "k = 3" by linarith
  then show ?thesis
  proof cases
    case 1
    then have k: "js_at suffixes k = None" by (simp add: js_at_None)
    consider "v < 0 \<or> 4 \<le> v" | "v = 0" | "v = 1" | "v = 2" | "v = 3" by linarith
    then show ?thesis
      using 1 by cases (auto simp add: k nullish_def tmpl_def js_at_def suffixes_def)
  qed (simp_all add: nullish_def tmpl_def js_at_def suffixes_def)
qed



text \<open>
  Claim C9, as amended.  For every negative integer \<open>n\<close>, \<open>ordinal\<close> returns the text
  of \<open>n\<close> (its decimal text on the safe integers, the host's text beyond them) followed
  by th.  The remainder \<open>v\<close> of \<open>n\<close> by 100 and the first index, the remainder of
  \<open>v - 20\<close> by 10, are both at most 0, so neither read of \<open>suffixes\<close> can give st, nd or
  rd: a read at a negative index gives \<open>undefined\<close>, and a read at index 0 gives th.
\<close>

theorem ordinal_negative:
  assumes "n < 0"
  shows "ordinal big n = number_text big n @ ''th''
     \<and> js_rem n 100 \<le> 0 \<and> js_rem (js_rem n 100 - 20) 10 \<le> 0"
proof -
  define v where "v = js_rem n 100"
  define k where "k = js_rem (v - 20) 10"
  have v: "v \<le> 0" using assms by (simp add: v_def js_rem_nonpos)
  then have k: "k \<le> 0" by (simp add: k_def js_rem_nonpos)
  from v k have "ordinal big n = number_text big n @ ''th''"
    unfolding ordinal_def Let_def suffix_read v_def [symmetric] k_def [symmetric]
    by auto
  with v k show ?thesis
    by (simp add: v_def k_def)
qed

theorem ordinal_negative_witness:
  "(-21::int) < 0 \<and> ordinal show_int (-21) = ''-21th'' \<and> js_rem (-21) 100 = -21
     \<and> js_rem (js_rem (-21) 100 - 20) 10 = -1
     \<and> ordinal (\<lambda>n. ''-1e+21'') (- (10 ^ 21)) = ''-1e+21th''"
proof -
  have "ordinal show_int (-21) = number_text show_int (-21) @ ''th''"
    using ordinal_negative [of "-21" show_int] by simp
  moreover have "number_text show_int (-21) = ''-21''"
    by (simp add: number_text_def) code_simp
  moreover have "js_rem (-21) 100 = -21" "js_rem (js_rem (-21) 100 - 20) 10 = -1"
    by (simp_all add: js_rem_def)
  moreover have "ordinal (\<lambda>n. ''-1e+21'') (- (10 ^ 21))
      = number_text (\<lambda>n. ''-1e+21'') (- (10 ^ 21)) @ ''th''"
    using ordinal_negative [of "- (10 ^ 21)" "\<lambda>n. ''-1e+21''"] by simp
  moreover have "number_text (\<lambda>n. ''-1e+21'') (- (10 ^ 21)) = ''-1e+21''"
    by (simp add: number_text_def MAX_SAFE_INTEGER_def)
  ultimately show ?thesis by simp
qed

text \<open>
  The first read does not always miss for a negative argument: at \<open>n = -20\<close> its index
  is 0 and it gives the entry th.
\<close>

theorem ordinal_negative_first_read_hits:
  "(-20::int) < 0 \<and> js_at suffixes (js_rem (js_rem (-20) 100 - 20) 10) = Some ''th''"
  by (simp add: js_rem_def js_at_def suffixes_def)

section \<open>wordinal below one thousand\<close>

text \<open>The two branches for arguments below one hundred.\<close>

lemma wordinal_units_tens:
  assumes "0 \<le> n" and "n \<le> 99"
  shows "wordinal n =
       Inr (if n \<le> 19 then ones ! nat n
            else if n mod 10 = 0 then tens ! nat (n div 10 - 2) @ ''ieth''
            else tens ! nat (n div 10 - 2) @ ''y-'' @ ones ! nat (n mod 10))"
proof (cases "n \<le> 19")
  case True
  with assms show ?thesis
    by (simp add: wordinal.simps [of n] MAX_SAFE_INTEGER_def js_at_Some tmpl_def)
next
  case False
  with assms have "floor_log10 n = 1" "0 \<le> n div 10 - 2" "n div 10 - 2 < 8"
    by (simp_all add: floor_log10_tens)
  with assms False show ?thesis
    by (simp add: wordinal.simps [of n] MAX_SAFE_INTEGER_def js_at_Some tmpl_def js_rem_nonneg)
qed

text \<open>
  Claim C7.  For every integer \<open>n\<close> from 0 to 19, \<open>wordinal n\<close> is entry \<open>n\<close> of the
  table \<open>ones\<close>; for every \<open>n\<close> from 20 to 99 it is the stem for the tens digit (entry
  \<open>n div 10 - 2\<close> of \<open>tens\<close>) followed by ieth when \<open>n\<close> is a multiple of ten, and
  otherwise by y, a hyphen and entry \<open>n mod 10\<close> of \<open>ones\<close>.  So \<open>wordinal 0\<close> is zeroth,
  \<open>wordinal 13\<close> thirteenth, \<open>wordinal 20\<close> twentieth and \<open>wordinal 21\<close> twenty-first.
\<close>

theorem wordinal_below_hundred:
  assumes "0 \<le> n" and "n \<le> 99"
  shows "wordinal n =
       Inr (if n \<le> 19 then ones ! nat n
            else if n mod 10 = 0 then tens ! nat (n div 10 - 2) @ ''ieth''
            else tens ! nat (n div 10 - 2) @ ''y-'' @ ones ! nat (n mod 10))
     \<and> wordinal 0 = Inr ''zeroth'' \<and> wordinal 13 = Inr ''thirteenth''
     \<and> wordinal 20 = Inr ''twentieth'' \<and> wordinal 21 = Inr ''twenty-first''"
proof -
  have "wordinal 0 = Inr ''zeroth''" "wordinal 13 = Inr ''thirteenth''"
    "wordinal 20 = Inr ''twentieth''" "wordinal 21 = Inr ''twenty-first''"
    by code_simp+
  with wordinal_units_tens [OF assms] show ?thesis by blast
qed

theorem wordinal_below_hundred_witness:
  "(0::int) \<le> 87 \<and> (87::int) \<le> 99 \<and> wordinal 87 = Inr ''eighty-seventh''"
proof -
  have "wordinal 87 =
       Inr (if (87::int) \<le> 19 then ones ! nat 87
            else if (87::int) mod 10 = 0 then tens ! nat (87 div 10 - 2) @ ''ieth''
            else tens ! nat (87 div 10 - 2) @ ''y-'' @ ones ! nat (87 mod 10))"
    using wordinal_below_hundred [of 87] by simp
  moreover have "tens ! nat (87 div 10 - 2) = ''eight''" "ones ! nat (87 mod 10) = ''seventh''"
    by (simp_all add: tens_def ones_def)
  ultimately show ?thesis by simp
qed

text \<open>
  Claim C6.  For every integer \<open>n\<close> from 100 to 999, with \<open>f = n div 100\<close> and
  \<open>r = n - f * 100\<close>: \<open>wordinal n\<close> is entry \<open>f\<close> of the cardinal table \<open>nums\<close> followed
  by a space and hundred, then th when \<open>r = 0\<close>, and otherwise a space and the words that
  \<open>wordinal r\<close> returns.  So \<open>wordinal 100\<close> is one hundredth and \<open>wordinal 102\<close> is one
  hundred second.
\<close>

theorem wordinal_hundreds:
  assumes "100 \<le> n" and "n \<le> 999"
  shows "(\<exists>w. wordinal (n - (n div 100) * 100) = Inr w \<and>
       wordinal n = Inr (nums ! nat (n div 100) @ '' hundred'' @
          (if n - (n div 100) * 100 = 0 then ''th'' else '' '' @ w)))
     \<and> wordinal 100 = Inr ''one hundredth'' \<and> wordinal 102 = Inr ''one hundred second''"
proof -
  define r where "r = n - (n div 100) * 100"
  have r: "r = n mod 100" by (simp add: r_def minus_div_mult_eq_mod)
  then have "0 \<le> r" "r \<le> 99" by simp_all
  then obtain w where w: "wordinal r = Inr w"
    using wordinal_units_tens [of r] by blast
  have "floor_log10 n = 2" "1 \<le> n div 100" "n div 100 \<le> 9"
    using assms by (simp_all add: floor_log10_hundreds)
  with assms w have "wordinal n = Inr (nums ! nat (n div 100) @ '' hundred'' @
        (if r = 0 then ''th'' else '' '' @ w))"
    by (simp add: wordinal.simps [of n] MAX_SAFE_INTEGER_def js_at_Some tmpl_def r_def groups_def)
  moreover have "wordinal 100 = Inr ''one hundredth''" "wordinal 102 = Inr ''one hundred second''"
    by code_simp+
  ultimately show ?thesis using w unfolding r_def by blast
qed

theorem wordinal_hundreds_witness:
  "(100::int) \<le> 324 \<and> (324::int) \<le> 999
     \<and> wordinal 24 = Inr ''twenty-fourth''
     \<and> wordinal 324 = Inr ''three hundred twenty-fourth''"
proof -
  have w: "wordinal 24 = Inr ''twenty-fourth''" by code_simp
  have "\<exists>w. wordinal 24 = Inr w \<and> wordinal 324 = Inr (nums ! 3 @ '' hundred'' @ '' '' @ w)"
    using wordinal_hundreds [of 324] by (simp add: numeral_3_eq_3)
  with w have "wordinal 324 = Inr (nums ! 3 @ '' hundred'' @ '' '' @ ''twenty-fourth'')"
    by auto
  with w show ?thesis by (simp add: nums_def)
qed


section \<open>wordinal from one thousand: the leading group\<close>

text \<open>
  A number written as \<open>f * 1000 ^ k + r\<close>, with \<open>f\<close> from 1 to 999 and
  \<open>r < 1000 ^ k\<close>, has its leading digit at position \<open>3 * k\<close> plus that of \<open>f\<close>;
  the locals of the general case are then \<open>i = k\<close>, \<open>f\<close> itself and \<open>x = r\<close>.
\<close>

lemma floor_log10_group:
  assumes "1 \<le> f" and "0 \<le> r" and "r < 1000 ^ k"
  shows "floor_log10 (f * 1000 ^ k + r) = 3 * int k + floor_log10 f"
proof -
  define l where "l = nat (floor_log10 f)"
  have l: "floor_log10 f = int l" using floor_log10_nonneg [of f] by (simp add: l_def)
  have f: "(10::int) ^ l \<le> f" "f + 1 \<le> 10 ^ (l + 1)"
    using floor_log10_lower [OF assms(1)] floor_log10_upper [OF assms(1)] by (simp_all add: l_def)
  have p: "(1000::int) ^ k = 10 ^ (3 * k)"
    by (simp add: power_mult)
  have "(10::int) ^ (3 * k + l) = 10 ^ l * 1000 ^ k"
    by (simp add: p power_add)
  also have "\<dots> \<le> f * 1000 ^ k"
    using f(1) by (simp add: mult_right_mono)
  also have "\<dots> \<le> f * 1000 ^ k + r"
    using assms(2) by simp
  finally have lo: "10 ^ (3 * k + l) \<le> f * 1000 ^ k + r" .
  have "f * 1000 ^ k + r < (f + 1) * 1000 ^ k"
    using assms(3) by (simp add: algebra_simps)
  also have "\<dots> \<le> 10 ^ (l + 1) * 1000 ^ k"
    using f(2) by (simp add: mult_right_mono)
  also have "\<dots> = 10 ^ Suc (3 * k + l)"
    by (simp add: p power_add)
  finally have hi: "f * 1000 ^ k + r < 10 ^ Suc (3 * k + l)" .
  show ?thesis
    using floor_log10_unique [OF lo hi] l by simp
qed

lemma floor_log10_le2: "1 \<le> f \<Longrightarrow> f \<le> 999 \<Longrightarrow> floor_log10 f \<le> 2"
proof -
  assume f: "1 \<le> f" "f \<le> 999"
  have "(10::int) ^ nat (floor_log10 f) \<le> f" using floor_log10_lower [OF f(1)] .
  with f have "(10::int) ^ nat (floor_log10 f) < 10 ^ 3" by simp
  then have "nat (floor_log10 f) < 3"
    by (simp only: power_strict_increasing_iff [of "10::int"] one_less_numeral_iff semiring_norm)
  then show ?thesis by simp
qed

lemma group_locals:
  assumes "1 \<le> f" and "f \<le> 999" and "0 \<le> r" and "r < 1000 ^ k"
    and "n = f * 1000 ^ k + r" and "mag = floor_log10 n"
  shows "wordinal_i mag = int k" and "wordinal_f n mag = f" and "wordinal_x n mag = r"
    and "mag = 3 * int k + floor_log10 f"
proof -
  have m: "mag = 3 * int k + floor_log10 f"
    using assms floor_log10_group [of f r k] by simp
  have l: "0 \<le> floor_log10 f" "floor_log10 f \<le> 2"
    using floor_log10_nonneg [of f] floor_log10_le2 [of f] assms by simp_all
  then have "0 \<le> mag" using m by simp
  then have g: "wordinal_g mag = floor_log10 f + 1"
    using l by (simp add: wordinal_g_def js_rem_nonneg m)
  have "mag - wordinal_g mag + 1 = 3 * int k"
    using g m by linarith
  then have e: "nat (mag - wordinal_g mag + 1) = 3 * k"
    by simp
  have p: "(10::int) ^ (3 * k) = 1000 ^ k"
    by (simp add: power_mult)
  show "mag = 3 * int k + floor_log10 f" by (rule m)
  show "wordinal_i mag = int k"
    using l by (simp add: wordinal_i_def m)
  have "wordinal_f n mag = n div 1000 ^ k"
    by (simp add: wordinal_f_def e p)
  also have "\<dots> = f"
    using assms(3,4) by (simp add: assms(5))
  finally show ff: "wordinal_f n mag = f" .
  have "wordinal_x n mag = n - f * 1000 ^ k"
    by (simp add: wordinal_x_def ff e p)
  then show "wordinal_x n mag = r"
    by (simp add: assms(5))
qed


lemma thousand_power_less_iff: "(1000::int) ^ a < 1000 ^ b \<longleftrightarrow> a < b"
  by (simp only: power_strict_increasing_iff [of "1000::int"] one_less_numeral_iff semiring_norm)

lemma group_index_bound:
  assumes "1 \<le> f" and "0 \<le> r" and "f * 1000 ^ k + r \<le> MAX_SAFE_INTEGER"
  shows "k \<le> 5"
proof -
  have "(1000::int) ^ k \<le> f * 1000 ^ k"
    using assms(1) by (simp add: mult_le_cancel_right1)
  with assms(2,3) have "(1000::int) ^ k \<le> 9007199254740991"
    unfolding MAX_SAFE_INTEGER_def by linarith
  then have "(1000::int) ^ k < 1000 ^ 6"
    by simp
  then have "k < 6" by (simp only: thousand_power_less_iff)
  then show ?thesis by simp
qed

lemma group_branch:
  assumes "1 \<le> f" and "f \<le> 999" and "1 \<le> k" and "0 \<le> r" and "r < 1000 ^ k"
    and "n = f * 1000 ^ k + r" and "n \<le> MAX_SAFE_INTEGER"
  shows "\<not> (n < 0 \<or> n > MAX_SAFE_INTEGER)" and "\<not> n < 20"
    and "floor_log10 n \<noteq> 1" and "floor_log10 n \<noteq> 2"
    and "wordinal_i (floor_log10 n) = int k" and "wordinal_f n (floor_log10 n) = f"
    and "wordinal_x n (floor_log10 n) = r" and "k \<le> 5"
proof -
  note loc = group_locals [OF assms(1,2,4,5,6) refl]
  show "k \<le> 5"
    using group_index_bound [OF assms(1,4)] assms(6,7) by simp
  have "(1000::int) ^ 1 \<le> 1000 ^ k"
    using assms(3) by (simp only: power_increasing one_le_numeral)
  also have "\<dots> \<le> f * 1000 ^ k"
    using assms(1) by (simp add: mult_le_cancel_right1)
  finally have "1000 \<le> n"
    using assms(4) by (simp add: assms(6))
  with assms(7) show "\<not> (n < 0 \<or> n > MAX_SAFE_INTEGER)" and "\<not> n < 20"
    by simp_all
  have "3 \<le> floor_log10 n"
    using loc(4) floor_log10_nonneg [of f] assms(3) by linarith
  then show "floor_log10 n \<noteq> 1" and "floor_log10 n \<noteq> 2" by simp_all
  show "wordinal_i (floor_log10 n) = int k" "wordinal_f n (floor_log10 n) = f"
    "wordinal_x n (floor_log10 n) = r"
    by (rule loc)+
qed

text \<open>
  The general case, for an argument given by its leading group \<open>f\<close>, the index \<open>k\<close>
  of that group and the rest \<open>r\<close>: the words of \<open>mult f\<close>, the name of the group, and
  then th when nothing is left, or else the words of the rest.
\<close>

lemma wordinal_group:
  assumes "1 \<le> f" and "f \<le> 999" and "1 \<le> k" and "0 \<le> r" and "r < 1000 ^ k"
    and "f * 1000 ^ k + r \<le> MAX_SAFE_INTEGER"
  shows "wordinal (f * 1000 ^ k + r) =
     (if r = 0 then Inr (mult f @ '' '' @ groups ! k @ ''th'')
      else case wordinal r of
             Inl e \<Rightarrow> Inl e
           | Inr w \<Rightarrow> Inr (mult f @ '' '' @ groups ! k @ '' '' @ w))"
proof -
  define n where "n = f * 1000 ^ k + r"
  note b = group_branch [OF assms(1-5) n_def assms(6) [folded n_def]]
  have g: "js_at groups (int k) = Some (groups ! k)"
    using b(8) by (simp add: js_at_Some)
  show ?thesis
    unfolding n_def [symmetric]
    by (subst wordinal.simps) (simp add: b(1-7) Let_def g tmpl_def cong: sum.case_cong)
qed

text \<open>Every argument from one thousand on has this form.\<close>

lemma group_decomposition:
  assumes "(1000::int) \<le> n"
  shows "\<exists>f k r. 1 \<le> f \<and> f \<le> 999 \<and> 1 \<le> k \<and> 0 \<le> r \<and> r < 1000 ^ k \<and> n = f * 1000 ^ k + r"
proof -
  define m where "m = nat (floor_log10 n)"
  define k where "k = m div 3"
  have n: "1 \<le> n" using assms by simp
  have b: "(10::int) ^ m \<le> n" "n < 10 ^ (m + 1)"
    using floor_log10_lower [OF n] floor_log10_upper [OF n] by (simp_all add: m_def)
  have p: "(1000::int) ^ k = 10 ^ (3 * k)"
    by (simp add: power_mult)
  from assms b(2) have "(10::int) ^ 3 < 10 ^ (m + 1)" by simp
  then have "3 < m + 1"
    by (simp only: power_strict_increasing_iff [of "10::int"] one_less_numeral_iff semiring_norm)
  then have k1: "1 \<le> k" by (simp add: k_def)
  have "3 * k \<le> m" "m + 1 \<le> 3 * k + 3" by (simp_all add: k_def)
  then have "(10::int) ^ (3 * k) \<le> 10 ^ m" "(10::int) ^ (m + 1) \<le> 10 ^ (3 * k + 3)"
    by (simp_all only: power_increasing one_le_numeral)
  with b have "(10::int) ^ (3 * k) \<le> n" "n < 10 ^ (3 * k + 3)"
    by linarith+
  then have lo: "(1000::int) ^ k \<le> n" and hi: "n < 1000 * 1000 ^ k"
    by (simp_all add: p power_add)
  define f where "f = n div 1000 ^ k"
  define r where "r = n mod 1000 ^ k"
  have n: "n = f * 1000 ^ k + r" by (simp only: f_def r_def div_mult_mod_eq)
  have r: "0 \<le> r" "r < 1000 ^ k" by (simp_all add: r_def)
  have "0 < n div 1000 ^ k"
    using lo by (simp add: pos_imp_zdiv_pos_iff)
  then have f1: "1 \<le> f" by (simp add: f_def)
  have "f < 1000"
  proof (rule ccontr)
    assume "\<not> f < 1000"
    then have "1000 * 1000 ^ k \<le> f * 1000 ^ k"
      by (simp add: mult_right_mono)
    with r(1) hi show False unfolding n by linarith
  qed
  with n r f1 k1 show ?thesis
    by (intro exI [of _ f] exI [of _ k] exI [of _ r]) simp
qed

text \<open>
  With the exact magnitude \<open>floor_log10\<close>, \<open>wordinal\<close> throws outside the range and
  returns words inside it.
\<close>

lemma wordinal_throws: "n < 0 \<or> n > MAX_SAFE_INTEGER \<Longrightarrow> wordinal n = Inl OutOfRange"
  by (subst wordinal.simps) simp

lemma wordinal_returns_exact:
  "0 \<le> n \<Longrightarrow> n \<le> MAX_SAFE_INTEGER \<Longrightarrow> \<exists>w. wordinal n = Inr w"
proof (induction "nat n" arbitrary: n rule: less_induct)
  case less
  consider "n \<le> 99" | "100 \<le> n" "n \<le> 999" | "1000 \<le> n" by linarith
  then show ?case
  proof cases
    case 1
    with less.prems show ?thesis using wordinal_units_tens [of n] by simp
  next
    case 2
    define x where "x = n - n div 100 * 100"
    have "x = n mod 100" by (simp add: x_def minus_div_mult_eq_mod)
    then have "0 \<le> x" "x \<le> 99" by simp_all
    then obtain w where w: "wordinal x = Inr w" using wordinal_units_tens [of x] by blast
    have "floor_log10 n = 2" using 2 by (simp add: floor_log10_hundreds)
    with 2 less.prems w show ?thesis
      by (subst wordinal.simps) (simp add: Let_def x_def [symmetric])
  next
    case 3
    then obtain f k r where d: "1 \<le> f" "f \<le> 999" "1 \<le> k" "0 \<le> r" "r < 1000 ^ k"
      "n = f * 1000 ^ k + r"
      using group_decomposition [of n] by blast
    have "(1000::int) ^ k \<le> f * 1000 ^ k"
      using d(1) by (simp add: mult_le_cancel_right1)
    with d(4,5) have "r < n" unfolding d(6) by linarith
    with d(4) less.prems have "nat r < nat n" "r \<le> MAX_SAFE_INTEGER" by linarith+
    with less.hyps [of r] d(4) obtain w where "wordinal r = Inr w" by blast
    with wordinal_group [OF d(1-5)] less.prems d(6) show ?thesis by simp
  qed
qed


section \<open>The table reads stay inside the tables\<close>

lemma in_table_simps [simp]:
  "in_table (Nums, i) \<longleftrightarrow> 0 \<le> i \<and> i \<le> 19"
  "in_table (Ones, i) \<longleftrightarrow> 0 \<le> i \<and> i \<le> 19"
  "in_table (Tens, i) \<longleftrightarrow> 0 \<le> i \<and> i \<le> 7"
  "in_table (Groups, i) \<longleftrightarrow> 0 \<le> i \<and> i \<le> 5"
  by (simp_all add: in_table_def)

lemma mult_reads_below_hundred:
  assumes "0 \<le> num" and "num \<le> 99"
  shows "list_all in_table (mult_reads num)"
proof (cases "num < 20")
  case True
  with assms show ?thesis by (subst mult_reads.simps) simp
next
  case False
  with assms have "0 \<le> num div 10 - 2" "num div 10 - 2 \<le> 7" "0 \<le> num mod 10" "num mod 10 \<le> 19"
    by simp_all
  with assms False show ?thesis
    by (subst mult_reads.simps) (simp add: Let_def js_rem_nonneg)
qed

lemma mult_reads_in_table:
  assumes "0 \<le> num" and "num \<le> 999"
  shows "list_all in_table (mult_reads num)"
proof (cases "num \<le> 99")
  case True
  with assms show ?thesis by (simp add: mult_reads_below_hundred)
next
  case False
  define x where "x = num - num div 100 * 100"
  have "x = num mod 100" by (simp add: x_def minus_div_mult_eq_mod)
  then have "0 \<le> x" "x \<le> 99" by simp_all
  then have x: "list_all in_table (mult_reads x)" by (rule mult_reads_below_hundred)
  from assms False have "0 \<le> num div 100" "num div 100 \<le> 19" by simp_all
  with False x show ?thesis
    by (subst mult_reads.simps) (simp add: Let_def x_def [symmetric])
qed

lemma floor_log10_ge1: "10 \<le> n \<Longrightarrow> 1 \<le> floor_log10 n"
  by (subst floor_log10.simps) (simp add: floor_log10_nonneg)

lemma floor_log10_le_iff:
  assumes "1 \<le> n" and "n < 10 ^ Suc m"
  shows "floor_log10 n \<le> int m"
proof -
  have "(10::int) ^ nat (floor_log10 n) \<le> n" using floor_log10_lower [OF assms(1)] .
  with assms(2) have "(10::int) ^ nat (floor_log10 n) < 10 ^ Suc m" by linarith
  then have "nat (floor_log10 n) < Suc m"
    by (simp only: power_strict_increasing_iff [of "10::int"] one_less_numeral_iff semiring_norm)
  then show ?thesis by simp
qed

lemma floor_log10_less_imp:
  assumes "1 \<le> n" and "floor_log10 n \<le> int m"
  shows "n < 10 ^ Suc m"
proof -
  have "n < 10 ^ (nat (floor_log10 n) + 1)" using floor_log10_upper [OF assms(1)] .
  also have "(10::int) ^ (nat (floor_log10 n) + 1) \<le> 10 ^ Suc m"
    using assms(2) by (intro power_increasing) simp_all
  finally show ?thesis .
qed

lemma wordinal_f_bounds:
  assumes "1 \<le> n" and "floor_log10 n \<le> mag"
  shows "0 \<le> wordinal_f n mag" and "wordinal_f n mag \<le> 999"
proof -
  define e where "e = nat (mag - wordinal_g mag + 1)"
  have mag: "0 \<le> mag" using assms(2) floor_log10_nonneg [of n] by linarith
  then have g: "wordinal_g mag = mag mod 3 + 1"
    by (simp add: wordinal_g_def js_rem_nonneg)
  have "0 \<le> mag mod 3" "mag mod 3 < 3" "mag mod 3 \<le> mag"
    using mag by (simp_all add: zmod_le_nonneg_dividend)
  then have "int e = mag - mag mod 3"
    unfolding e_def g by linarith
  with \<open>mag mod 3 < 3\<close> have "mag + 1 \<le> int e + 3" by linarith
  with assms(2) have "floor_log10 n \<le> int (e + 2)" by simp
  then have "n < 10 ^ Suc (e + 2)" by (rule floor_log10_less_imp [OF assms(1)])
  then have hi: "n < 1000 * 10 ^ e" by (simp add: power_add)
  have f: "wordinal_f n mag = n div 10 ^ e" by (simp add: wordinal_f_def e_def)
  show "0 \<le> wordinal_f n mag"
    using assms(1) by (simp add: f pos_imp_zdiv_nonneg_iff)
  have "wordinal_f n mag < 1000"
  proof (rule ccontr)
    assume "\<not> wordinal_f n mag < 1000"
    then have "1000 * 10 ^ e \<le> (n div 10 ^ e) * 10 ^ e"
      by (simp add: f mult_right_mono)
    moreover have "(n div 10 ^ e) * 10 ^ e + n mod 10 ^ e = n"
      by (rule div_mult_mod_eq)
    moreover have "0 \<le> n mod 10 ^ e"
      by simp
    ultimately show False using hi by linarith
  qed
  then show "wordinal_f n mag \<le> 999" by simp
qed


text \<open>
  The reads stay inside the tables for every magnitude function that gives the exact value
  or one more, whatever the depth and the argument.
\<close>

lemma reads_with_in_table:
  assumes lg: "\<And>n. lg n = floor_log10 n \<or> lg n = floor_log10 n + 1"
  shows "list_all in_table (wordinal_reads_with lg depth n)"
proof (induction depth arbitrary: n)
  case 0
  show ?case by simp
next
  case (Suc depth)
  note IH = Suc.IH
  show ?case
  proof (cases "n < 0 \<or> n > MAX_SAFE_INTEGER")
    case True
    then show ?thesis by simp
  next
    case range: False
    show ?thesis
    proof (cases "n < 20")
      case True
      with range show ?thesis by simp
    next
      case n20: False
      define m where "m = floor_log10 n"
      have n1: "1 \<le> n" using n20 by simp
      have m1: "1 \<le> m" using n20 by (simp add: m_def floor_log10_ge1)
      have "n < 10 ^ Suc 15" using range by (simp add: MAX_SAFE_INTEGER_def)
      then have m15: "m \<le> 15" using floor_log10_le_iff [OF n1, of 15] by (simp add: m_def)
      have mag: "lg n = m \<or> lg n = m + 1" using lg [of n] by (simp add: m_def)
      consider (tens) "lg n = 1" | (hundreds) "lg n = 2" | (general) "lg n \<noteq> 1" "lg n \<noteq> 2"
        by blast
      then show ?thesis
      proof cases
        case tens
        with mag m1 have "floor_log10 n \<le> int 1" by (simp add: m_def)
        then have "n < 10 ^ Suc 1" by (rule floor_log10_less_imp [OF n1])
        with n20 have "0 \<le> n div 10 - 2" "n div 10 - 2 \<le> 7" "0 \<le> n mod 10" "n mod 10 \<le> 19"
          by simp_all
        with range n20 tens show ?thesis
          by (simp add: Let_def js_rem_nonneg)
      next
        case hundreds
        with mag m1 have "floor_log10 n \<le> int 2" unfolding m_def by linarith
        then have "n < 10 ^ Suc 2" by (rule floor_log10_less_imp [OF n1])
        with n20 have "0 \<le> n div 100" "n div 100 \<le> 19"
          by simp_all
        with range n20 hundreds IH show ?thesis
          by (simp add: Let_def)
      next
        case general
        with mag m1 m15 have b: "3 \<le> lg n" "lg n \<le> 16" "floor_log10 n \<le> lg n"
          unfolding m_def by linarith+
        then have i: "0 \<le> wordinal_i (lg n)" "wordinal_i (lg n) \<le> 5"
          by (simp_all add: wordinal_i_def)
        have "list_all in_table (mult_reads (wordinal_f n (lg n)))"
          using wordinal_f_bounds [OF n1 b(3)] by (rule mult_reads_in_table)
        with range n20 general i IH show ?thesis
          by (simp add: Let_def)
      qed
    qed
  qed
qed

lemma rounded_log10_near: "rounded_log10 n = floor_log10 n \<or> rounded_log10 n = floor_log10 n + 1"
proof -
  have "floor_log10 999999999999999 = 14" "floor_log10 999999999999998 = 14"
    by code_simp+
  then show ?thesis by (auto simp add: rounded_log10_def)
qed

text \<open>
  Once \<open>wordinal_with\<close> has returned within a depth, a larger depth adds no read.
\<close>

lemma reads_complete:
  "wordinal_with lg depth n = Some r \<Longrightarrow>
     wordinal_reads_with lg (Suc depth) n = wordinal_reads_with lg depth n"
proof (induction depth arbitrary: n r)
  case 0
  then show ?case by simp
next
  case (Suc depth)
  define x2 where "x2 = n - n div 10 ^ nat (lg n) * 10 ^ nat (lg n)"
  define x where "x = wordinal_x n (lg n)"
  consider (stop) "n < 0 \<or> n > MAX_SAFE_INTEGER \<or> n < 20 \<or> lg n = 1
      \<or> (lg n = 2 \<and> x2 = 0) \<or> (lg n \<noteq> 2 \<and> x = 0)"
    | (hundreds) "\<not> (n < 0 \<or> n > MAX_SAFE_INTEGER)" "\<not> n < 20" "lg n \<noteq> 1" "lg n = 2"
        "x2 \<noteq> 0"
    | (general) "\<not> (n < 0 \<or> n > MAX_SAFE_INTEGER)" "\<not> n < 20" "lg n \<noteq> 1" "lg n \<noteq> 2"
        "x \<noteq> 0"
    by blast
  then show ?case
  proof cases
    case stop
    then show ?thesis
      unfolding wordinal_reads_with.simps(2) [of lg "Suc depth" n]
        wordinal_reads_with.simps(2) [of lg depth n] Let_def x2_def [symmetric] x_def [symmetric]
      by auto
  next
    case hundreds
    have "wordinal_with lg depth x2 \<noteq> None"
      using Suc.prems hundreds
      unfolding wordinal_with.simps(2) [of lg depth n] Let_def x2_def [symmetric]
      by (auto split: option.splits)
    then have "wordinal_reads_with lg (Suc depth) x2 = wordinal_reads_with lg depth x2"
      using Suc.IH [of x2] by blast
    with hundreds show ?thesis
      unfolding wordinal_reads_with.simps(2) [of lg "Suc depth" n]
        wordinal_reads_with.simps(2) [of lg depth n] Let_def x2_def [symmetric]
      by simp
  next
    case general
    have "wordinal_with lg depth x \<noteq> None"
      using Suc.prems general
      unfolding wordinal_with.simps(2) [of lg depth n] Let_def x_def [symmetric]
      by (auto split: option.splits)
    then have "wordinal_reads_with lg (Suc depth) x = wordinal_reads_with lg depth x"
      using Suc.IH [of x] by blast
    with general show ?thesis
      unfolding wordinal_reads_with.simps(2) [of lg "Suc depth" n]
        wordinal_reads_with.simps(2) [of lg depth n] Let_def x_def [symmetric]
      by simp
  qed
qed


text \<open>
  Claim C8.  For every integer \<open>n\<close> from 0 to \<open>MAX_SAFE_INTEGER\<close>, every index that
  the evaluation of \<open>wordinal n\<close> computes for a table read lies in that table: 0 to 19
  for \<open>nums\<close> and \<open>ones\<close>, 0 to 7 for \<open>tens\<close> (tens digit 2 to 9) and 0 to 5 for
  \<open>groups\<close>.  The reads are those over the magnitude as the program computes it, to
  any depth, so the arguments on which the evaluation does not end are covered; outside the
  range nothing is read.
\<close>

theorem wordinal_reads_in_table:
  "list_all in_table (wordinal_reads_with rounded_log10 depth n)"
  by (rule reads_with_in_table) (rule rounded_log10_near)

text \<open>
  Two evaluations: one that ends, and one whose rest is \<open>10 ^ 15 - 1\<close>, where each further
  call reads \<open>nums\<close> at 0 and \<open>groups\<close> at 5 again.
\<close>

lemma wordinal_reads_examples:
  "wordinal_reads_with rounded_log10 4 1729 =
     [(Nums, 1), (Groups, 1), (Nums, 7), (Groups, 0), (Tens, 0), (Ones, 9)]"
  "wordinal_reads_with rounded_log10 3 1999999999999999 =
     [(Nums, 1), (Groups, 5), (Nums, 0), (Groups, 5), (Nums, 0), (Groups, 5)]"
  by code_simp+

section \<open>The leading group\<close>

text \<open>
  \<open>mult\<close> agrees with the cardinal phrase of the specification on every leading group
  from 1 to 999 except the exact multiples of one hundred, where it appends th.
\<close>

lemma mult_below_hundred:
  assumes "0 \<le> f" and "f \<le> 99"
  shows "mult f = spec_cardinal_below_hundred f"
proof (cases "f < 20")
  case True
  with assms show ?thesis
    by (subst mult.simps) (simp add: spec_cardinal_below_hundred_def js_at_Some tmpl_def)
next
  case False
  with assms have "0 \<le> f div 10 - 2" "f div 10 - 2 < 8" "0 \<le> f mod 10" "f mod 10 < 20"
    by simp_all
  with assms False show ?thesis
    by (subst mult.simps)
      (simp add: spec_cardinal_below_hundred_def js_at_Some tmpl_def js_rem_nonneg Let_def)
qed

lemma mult_cardinal:
  assumes "1 \<le> f" and "f \<le> 999"
  shows "mult f = spec_cardinal f @ (if 100 \<le> f \<and> f mod 100 = 0 then ''th'' else '''')"
proof (cases "f \<le> 99")
  case True
  with assms show ?thesis
    by (simp add: mult_below_hundred spec_cardinal_def)
next
  case False
  define x where "x = f - f div 100 * 100"
  have x: "x = f mod 100" by (simp add: x_def minus_div_mult_eq_mod)
  then have "0 \<le> x" "x \<le> 99" by simp_all
  then have m: "mult x = spec_cardinal_below_hundred x" by (rule mult_below_hundred)
  from assms False have "0 \<le> f div 100" "f div 100 < 20" by simp_all
  with False m show ?thesis
    by (subst mult.simps)
      (simp add: spec_cardinal_def js_at_Some tmpl_def Let_def x_def [symmetric] x [symmetric]
        groups_def)
qed

text \<open>
  Claim C1.  The claim is that for every \<open>n\<close> from 1000 to \<open>MAX_SAFE_INTEGER\<close> the
  leading group is rendered as a cardinal phrase, so that \<open>wordinal 500000\<close> is five
  hundred thousandth and \<open>wordinal 100000\<close> is one hundred thousandth.  The program
  returns five hundredth thousandth and one hundredth thousandth: \<open>mult\<close> ends an exact
  multiple of one hundred with th, where the cardinal phrase is five hundred.
\<close>

theorem wordinal_hundredth_in_leading_group:
  "wordinal 500000 = Inr ''five hundredth thousandth''
   \<and> wordinal 100000 = Inr ''one hundredth thousandth''
   \<and> mult 500 = ''five hundredth'' \<and> spec_cardinal 500 = ''five hundred''"
  by code_simp

text \<open>An exact multiple of a group: the words of \<open>mult f\<close>, the group name and th.\<close>

lemma wordinal_group_multiple:
  assumes "1 \<le> f" and "f \<le> 999" and "1 \<le> k" and "f * 1000 ^ k \<le> MAX_SAFE_INTEGER"
  shows "wordinal (f * 1000 ^ k) = Inr (mult f @ '' '' @ groups ! k @ ''th'')"
  using wordinal_group [of f k 0] assms by simp

text \<open>
  Claim C4.  The claim is that \<open>wordinal (f * 1000 ^ k)\<close>, for \<open>f\<close> from 1 to 999 and
  \<open>k\<close> from 1 to 5 within the range, is the cardinal rendering of \<open>f\<close>, a space, the
  group name and th.  For \<open>f = 300\<close> and \<open>k = 2\<close> that is three hundred millionth; the
  program returns three hundredth millionth, since \<open>mult 300\<close> already ends in th.
\<close>

theorem wordinal_group_multiple_of_hundred:
  "wordinal (300 * 1000 ^ 2) = Inr ''three hundredth millionth''
   \<and> spec_cardinal 300 @ '' '' @ groups ! 2 @ ''th'' = ''three hundred millionth''"
  by code_simp

section \<open>Several groups\<close>

text \<open>
  Claim C5.  \<open>wordinal\<close> gives one thousand one hundredth for 1100, two million one
  hundred sixty thousandth for 2160000, thirty-two billion ten million two thousand four
  hundredth for 32010002400, and for 9007199254740991 the words nine quadrillion seven
  trillion one hundred ninety-nine billion two hundred fifty-four million seven hundred
  forty thousand nine hundred ninety-first.  Groups that are zero are skipped: when the
  rest \<open>r\<close> after the leading group \<open>f\<close> of index \<open>k\<close> is not zero and lies below
  \<open>1000 ^ j\<close> for some \<open>j < k\<close>, the name of group \<open>k\<close> is followed at once by the
  words of \<open>r\<close>.
\<close>

theorem wordinal_skips_zero_groups:
  assumes "1 \<le> f" and "f \<le> 999" and "j < k" and "0 < r" and "r < 1000 ^ j"
    and "f * 1000 ^ k + r \<le> MAX_SAFE_INTEGER"
  shows "(\<exists>w. wordinal r = Inr w \<and>
        wordinal (f * 1000 ^ k + r) = Inr (mult f @ '' '' @ groups ! k @ '' '' @ w))
     \<and> wordinal 1100 = Inr ''one thousand one hundredth''
     \<and> wordinal 2160000 = Inr ''two million one hundred sixty thousandth''
     \<and> wordinal 32010002400 =
         Inr ''thirty-two billion ten million two thousand four hundredth''
     \<and> wordinal 9007199254740991 =
         Inr ''nine quadrillion seven trillion one hundred ninety-nine billion two hundred fifty-four million seven hundred forty thousand nine hundred ninety-first''"
proof -
  have "(1000::int) ^ j \<le> 1000 ^ k"
    using assms(3) by (simp only: power_increasing one_le_numeral less_imp_le)
  with assms(5) have rk: "r < 1000 ^ k" by linarith
  have k: "1 \<le> k" using assms(3) by simp
  have r0: "0 \<le> r" using assms(4) by simp
  have "0 \<le> f * 1000 ^ k" using assms(1) by simp
  with assms(6) have "r \<le> MAX_SAFE_INTEGER" by linarith
  with r0 obtain w where w: "wordinal r = Inr w"
    using wordinal_returns_exact [of r] by blast
  with wordinal_group [OF assms(1,2) k r0 rk assms(6)] assms(4)
  have "wordinal (f * 1000 ^ k + r) = Inr (mult f @ '' '' @ groups ! k @ '' '' @ w)"
    by simp
  moreover have "wordinal 1100 = Inr ''one thousand one hundredth''"
    "wordinal 2160000 = Inr ''two million one hundred sixty thousandth''"
    "wordinal 32010002400 = Inr ''thirty-two billion ten million two thousand four hundredth''"
    "wordinal 9007199254740991 =
         Inr ''nine quadrillion seven trillion one hundred ninety-nine billion two hundred fifty-four million seven hundred forty thousand nine hundred ninety-first''"
    by code_simp+
  ultimately show ?thesis using w by blast
qed

theorem wordinal_skips_zero_groups_witness:
  "(1::int) \<le> 5 \<and> (5::int) \<le> 999 \<and> (1::nat) < 5 \<and> (0::int) < 7 \<and> (7::int) < 1000 ^ 1
     \<and> (5::int) * 1000 ^ 5 + 7 \<le> MAX_SAFE_INTEGER
     \<and> wordinal 7 = Inr ''seventh''
     \<and> wordinal 5000000000000007 = Inr ''five quadrillion seventh''"
proof -
  have w: "wordinal 7 = Inr ''seventh''" by code_simp
  have m: "mult 5 = ''five''" by code_simp
  have h: "(5::int) * 1000 ^ 5 + 7 \<le> MAX_SAFE_INTEGER"
    by (simp add: MAX_SAFE_INTEGER_def)
  have "\<exists>w. wordinal 7 = Inr w \<and>
      wordinal (5 * 1000 ^ 5 + 7) = Inr (mult 5 @ '' '' @ groups ! 5 @ '' '' @ w)"
    using wordinal_skips_zero_groups [of 5 1 5 7, OF _ _ _ _ _ h] by simp
  with w m have "wordinal (5 * 1000 ^ 5 + 7) = Inr ''five quadrillion seventh''"
    by (auto simp add: groups_def)
  with w h show ?thesis by simp
qed

section \<open>The magnitude in double precision\<close>

text \<open>
  The program takes the magnitude from \<open>Math.log10\<close>, which works on doubles.  The doubles
  from 8 to 16 are the multiples of \<open>1 / 2 ^ 49\<close>, and 15 is one of them.  The logarithm
  of \<open>10 ^ 15 - 1\<close> is below 15 by less than half of that spacing, so its nearest double
  is 15, and \<open>Math.floor\<close> of it is 15 where \<open>floor_log10\<close> is 14.
\<close>

lemma ln_10_ge_2: "2 \<le> ln (10::real)"
proof -
  have "exp (2::real) = exp 1 * exp 1"
    by (simp add: exp_add [symmetric])
  also have "\<dots> \<le> 3 * 3"
    by (intro mult_mono exp_le) simp_all
  finally have "exp (2::real) \<le> 10" by simp
  then have "ln (exp (2::real)) \<le> ln 10"
    by (simp only: ln_le_cancel_iff exp_gt_zero)
  then show ?thesis by simp
qed

lemma log10_near_15:
  shows "15 - 1 / 2 ^ 50 < log 10 999999999999999" and "log 10 999999999999999 < (15::real)"
proof -
  define y :: real where "y = 1 / 2 ^ 50"
  have y: "0 < y" by (simp add: y_def)
  have "1 + 2 * y \<le> 1 + y * ln 10"
    using ln_10_ge_2 y by simp
  also have "\<dots> \<le> exp (y * ln 10)"
    by (rule exp_ge_add_one_self)
  also have "\<dots> = 10 powr y"
    by (simp add: powr_def mult.commute)
  finally have p: "1 + 2 * y \<le> 10 powr y" .
  have "(10::real) ^ 15 < 999999999999999 * (1 + 2 * y)"
    by (simp add: y_def)
  also have "\<dots> \<le> 999999999999999 * 10 powr y"
    using p by simp
  finally have "(10::real) powr 15 < 999999999999999 * 10 powr y"
    by simp
  then have "(10::real) powr 15 / 10 powr y < 999999999999999"
    by (simp add: divide_less_eq)
  then have "(10::real) powr (15 - y) < 999999999999999"
    by (simp add: powr_diff)
  then have "15 - y < log 10 999999999999999"
    by (subst less_log_iff) simp_all
  then show "15 - 1 / 2 ^ 50 < log 10 999999999999999"
    unfolding y_def .
  have "log 10 999999999999999 < log 10 ((10::real) ^ 15)"
    by (subst log_less_cancel_iff) simp_all
  also have "\<dots> = real 15 * log 10 10"
    by (rule log_nat_power) simp
  also have "\<dots> = 15"
    by simp
  finally show "log 10 999999999999999 < (15::real)" .
qed

text \<open>In units of \<open>1 / 2 ^ 49\<close>, the multiple nearest to that logarithm is 15.\<close>

lemma log10_nearest_15: "round (log 10 999999999999999 * 2 ^ 49) = 15 * 2 ^ 49"
proof -
  define L :: real where "L = log 10 999999999999999"
  have "15 - 1 / 2 ^ 50 < L" "L < 15"
    using log10_near_15 by (simp_all only: L_def)
  then have "15 * 2 ^ 49 - 1 / 2 < L * 2 ^ 49" "L * 2 ^ 49 < 15 * 2 ^ 49"
    by (simp_all add: field_simps)
  then have "of_int (15 * 2 ^ 49) - 1 / 2 < L * 2 ^ 49"
    "L * 2 ^ 49 < of_int (15 * 2 ^ 49) + 1 / 2"
    by simp_all
  then have "round (L * 2 ^ 49) = 15 * 2 ^ 49"
    by (intro round_unique) simp_all
  then show ?thesis by (simp only: L_def)
qed

text \<open>The same for \<open>10 ^ 15 - 2\<close>, with a closer bound on the logarithm of ten.\<close>

lemma square_le: "0 \<le> b \<Longrightarrow> b \<le> u \<Longrightarrow> u * u \<le> v \<Longrightarrow> b * b \<le> (v::real)"
  by (meson mult_mono order_trans)

lemma ln_10_ge_226: "226 / 100 \<le> ln (10::real)"
proof -
  have e0: "exp (113 / 3200 :: real) \<le> 10365595 / 10000000"
  proof -
    have "exp (113 / 3200 :: real) \<le> 1 + 113 / 3200 + (113 / 3200)\<^sup>2"
      by (rule exp_bound) simp_all
    also have "\<dots> \<le> 10365595 / 10000000"
      by (simp add: power2_eq_square)
    finally show ?thesis .
  qed
  have d: "exp (2 * z) = exp z * exp z" for z :: real
    by (simp add: exp_add [symmetric])
  have "exp (113 / 1600 :: real) = exp (113 / 3200) * exp (113 / 3200)"
    using d [of "113 / 3200"] by simp
  also have "\<dots> \<le> 10744556 / 10000000"
    by (rule square_le [OF _ e0]) simp_all
  finally have e1: "exp (113 / 1600 :: real) \<le> 10744556 / 10000000" .
  have "exp (113 / 800 :: real) = exp (113 / 1600) * exp (113 / 1600)"
    using d [of "113 / 1600"] by simp
  also have "\<dots> \<le> 11544549 / 10000000"
    by (rule square_le [OF _ e1]) simp_all
  finally have e2: "exp (113 / 800 :: real) \<le> 11544549 / 10000000" .
  have "exp (113 / 400 :: real) = exp (113 / 800) * exp (113 / 800)"
    using d [of "113 / 800"] by simp
  also have "\<dots> \<le> 13327662 / 10000000"
    by (rule square_le [OF _ e2]) simp_all
  finally have e3: "exp (113 / 400 :: real) \<le> 13327662 / 10000000" .
  have "exp (113 / 200 :: real) = exp (113 / 400) * exp (113 / 400)"
    using d [of "113 / 400"] by simp
  also have "\<dots> \<le> 17762658 / 10000000"
    by (rule square_le [OF _ e3]) simp_all
  finally have e4: "exp (113 / 200 :: real) \<le> 17762658 / 10000000" .
  have "exp (113 / 100 :: real) = exp (113 / 200) * exp (113 / 200)"
    using d [of "113 / 200"] by simp
  also have "\<dots> \<le> 31551202 / 10000000"
    by (rule square_le [OF _ e4]) simp_all
  finally have e5: "exp (113 / 100 :: real) \<le> 31551202 / 10000000" .
  have "exp (226 / 100 :: real) = exp (113 / 100) * exp (113 / 100)"
    using d [of "113 / 100"] by simp
  also have "\<dots> \<le> 10"
    by (rule square_le [OF _ e5]) simp_all
  finally have "exp (226 / 100 :: real) \<le> 10" .
  then have "ln (exp (226 / 100 :: real)) \<le> ln 10"
    by (simp only: ln_le_cancel_iff exp_gt_zero)
  then show ?thesis by simp
qed

lemma log10_near_15_second:
  shows "15 - 1 / 2 ^ 50 < log 10 999999999999998" and "log 10 999999999999998 < (15::real)"
proof -
  define y :: real where "y = 1 / 2 ^ 50"
  have y: "0 < y" by (simp add: y_def)
  have "1 + 226 / 100 * y \<le> 1 + y * ln 10"
    using ln_10_ge_226 y by (simp add: mult.commute)
  also have "\<dots> \<le> exp (y * ln 10)"
    by (rule exp_ge_add_one_self)
  also have "\<dots> = 10 powr y"
    by (simp add: powr_def mult.commute)
  finally have p: "1 + 226 / 100 * y \<le> 10 powr y" .
  have "(10::real) ^ 15 < 999999999999998 * (1 + 226 / 100 * y)"
    by (simp add: y_def)
  also have "\<dots> \<le> 999999999999998 * 10 powr y"
    using p by simp
  finally have "(10::real) powr 15 < 999999999999998 * 10 powr y"
    by simp
  then have "(10::real) powr 15 / 10 powr y < 999999999999998"
    by (simp add: divide_less_eq)
  then have "(10::real) powr (15 - y) < 999999999999998"
    by (simp add: powr_diff)
  then have "15 - y < log 10 999999999999998"
    by (subst less_log_iff) simp_all
  then show "15 - 1 / 2 ^ 50 < log 10 999999999999998"
    unfolding y_def .
  have "log 10 999999999999998 < log 10 ((10::real) ^ 15)"
    by (subst log_less_cancel_iff) simp_all
  also have "\<dots> = real 15 * log 10 10"
    by (rule log_nat_power) simp
  also have "\<dots> = 15"
    by simp
  finally show "log 10 999999999999998 < (15::real)" .
qed

lemma log10_nearest_15_second: "round (log 10 999999999999998 * 2 ^ 49) = 15 * 2 ^ 49"
proof -
  define L :: real where "L = log 10 999999999999998"
  have "15 - 1 / 2 ^ 50 < L" "L < 15"
    using log10_near_15_second by (simp_all only: L_def)
  then have "15 * 2 ^ 49 - 1 / 2 < L * 2 ^ 49" "L * 2 ^ 49 < 15 * 2 ^ 49"
    by (simp_all add: field_simps)
  then have "of_int (15 * 2 ^ 49) - 1 / 2 < L * 2 ^ 49"
    "L * 2 ^ 49 < of_int (15 * 2 ^ 49) + 1 / 2"
    by simp_all
  then have "round (L * 2 ^ 49) = 15 * 2 ^ 49"
    by (intro round_unique) simp_all
  then show ?thesis by (simp only: L_def)
qed

text \<open>
  \<open>wordinal_with\<close> over the exact magnitude is \<open>wordinal\<close>: what it returns within a
  bound is the result of \<open>wordinal\<close>, and some bound is enough for every argument.
\<close>

lemma wordinal_with_exact:
  "wordinal_with floor_log10 depth n = Some r \<Longrightarrow> wordinal n = r"
proof (induction depth arbitrary: n r)
  case 0
  then show ?case by simp
next
  case (Suc depth)
  from Suc.prems show ?case
    by (subst wordinal.simps)
      (auto simp add: Let_def split: if_splits option.splits sum.splits dest: Suc.IH)
qed

lemma wordinal_with_returns:
  "\<exists>depth. wordinal_with floor_log10 depth n = Some (wordinal n)"
proof (induction n rule: wordinal.induct)
  case (1 n)
  define mag where "mag = floor_log10 n"
  define x where "x = wordinal_x n mag"
  consider (stop) "n < 0 \<or> n > MAX_SAFE_INTEGER \<or> n < 20 \<or> mag = 1
      \<or> (mag = 2 \<and> n = n div 100 * 100) \<or> (mag \<noteq> 2 \<and> x = 0)"
    | (hundreds) "\<not> (n < 0 \<or> n > MAX_SAFE_INTEGER)" "\<not> n < 20" "mag \<noteq> 1" "mag = 2"
        "n \<noteq> n div 100 * 100"
    | (general) "\<not> (n < 0 \<or> n > MAX_SAFE_INTEGER)" "\<not> n < 20" "mag \<noteq> 1" "mag \<noteq> 2"
        "x \<noteq> 0"
    by blast
  then show ?case
  proof cases
    case stop
    then have "wordinal_with floor_log10 (Suc 0) n = Some (wordinal n)"
      by (subst wordinal.simps)
        (auto simp add: Let_def mag_def [symmetric] x_def [symmetric])
    then show ?thesis ..
  next
    case hundreds
    then obtain d
      where "wordinal_with floor_log10 d (n - n div 100 * 100) =
        Some (wordinal (n - n div 100 * 100))"
      using "1.IH"(1) [of mag "n div 10 ^ nat mag" "n - n div 10 ^ nat mag * 10 ^ nat mag"]
      by (auto simp add: mag_def)
    with hundreds have "wordinal_with floor_log10 (Suc d) n = Some (wordinal n)"
      by (subst wordinal.simps)
        (auto simp add: Let_def mag_def [symmetric] split: sum.splits)
    then show ?thesis ..
  next
    case general
    then obtain d where "wordinal_with floor_log10 d x = Some (wordinal x)"
      using "1.IH"(2) [of mag "wordinal_i mag" "mult (wordinal_f n mag)" x]
      by (auto simp add: mag_def x_def)
    with general have "wordinal_with floor_log10 (Suc d) n = Some (wordinal n)"
      by (subst wordinal.simps)
        (auto simp add: Let_def mag_def [symmetric] x_def [symmetric] split: sum.splits)
    then show ?thesis ..
  qed
qed

text \<open>
  Claim C2.  The claim is that \<open>wordinal\<close> fails exactly for \<open>n < 0\<close> and
  \<open>n > MAX_SAFE_INTEGER\<close> and returns words for every \<open>n\<close> in between.  For
  \<open>n = 999999999999999\<close> the program does not return: the rounded logarithm gives the
  magnitude 15, so the leading group \<open>f\<close> is 0 and the rest \<open>x\<close> is \<open>n\<close> itself, and
  the evaluation calls \<open>wordinal\<close> on the same \<open>n\<close> again.  Whatever the bound on the
  depth, the evaluation has not ended when the bound is reached.
\<close>

theorem wordinal_rounded_magnitude_never_returns:
  "wordinal_with (\<lambda>n. if n = 999999999999999 then 15 else floor_log10 n) depth
     999999999999999 = None"
proof (induction depth)
  case 0
  show ?case by simp
next
  case (Suc depth)
  have "wordinal_x 999999999999999 15 = 999999999999999" "wordinal_i 15 = 5"
    by code_simp+
  with Suc show ?case
    by (simp add: MAX_SAFE_INTEGER_def Let_def)
qed

text \<open>
  Claim C10.  The claim is that every recursive call of \<open>wordinal\<close> and of \<open>mult\<close> is on
  a strictly smaller integer that is not negative, for every argument from 0 to
  \<open>MAX_SAFE_INTEGER\<close>.  With the exact magnitude this holds (\<open>hundreds_rest_less\<close>,
  \<open>wordinal_x_less\<close>, and the measure of \<open>mult\<close>).  For \<open>n = 999999999999999\<close> with
  the magnitude 15 of the rounded logarithm, the leading group is 0 and the argument of
  the recursive call is \<open>n\<close> itself, not a smaller integer.
\<close>

theorem wordinal_rounded_magnitude_not_smaller:
  "wordinal_f 999999999999999 15 = 0
   \<and> wordinal_x 999999999999999 15 = 999999999999999
   \<and> \<not> wordinal_x 999999999999999 15 < 999999999999999
   \<and> floor_log10 999999999999999 = 14
   \<and> wordinal_x 999999999999999 (floor_log10 999999999999999) < 999999999999999"
  by code_simp

end
